theory Spec2Isabelle
  imports Main "HOL-Library.AList" "HOL-Library.Sublist"
begin

section \<open>Python strings\<close>

text \<open>
  A Python \<open>str\<close> is modelled as a HOL \<open>string\<close>. The character classes of the
  \<open>re\<close> module (\<open>\w\<close>, \<open>\s\<close>, \<open>\d\<close>) and of \<open>str.strip\<close>, \<open>str.lower\<close> and
  \<open>str.title\<close> are given on the ASCII range; a character above it belongs to no class
  and is left unchanged by the case conversions.
\<close>

definition isspace :: "char \<Rightarrow> bool" where
  "isspace c \<longleftrightarrow> c \<in> set [CHR 0x09, CHR 0x0A, CHR 0x0B, CHR 0x0C, CHR 0x0D,
                         CHR 0x1C, CHR 0x1D, CHR 0x1E, CHR 0x1F, CHR 0x20]"

definition isdigit :: "char \<Rightarrow> bool" where
  "isdigit c \<longleftrightarrow> c \<in> set ''0123456789''"

definition isupper :: "char \<Rightarrow> bool" where
  "isupper c \<longleftrightarrow> c \<in> set ''ABCDEFGHIJKLMNOPQRSTUVWXYZ''"

definition islower :: "char \<Rightarrow> bool" where
  "islower c \<longleftrightarrow> c \<in> set ''abcdefghijklmnopqrstuvwxyz''"

definition isword :: "char \<Rightarrow> bool" where
  "isword c \<longleftrightarrow> isupper c \<or> islower c \<or> isdigit c \<or> c = CHR ''_''"

definition lower_char :: "char \<Rightarrow> char" where
  "lower_char c = (case map_of (zip ''ABCDEFGHIJKLMNOPQRSTUVWXYZ''
                                     ''abcdefghijklmnopqrstuvwxyz'') c of
                     Some d \<Rightarrow> d | None \<Rightarrow> c)"

definition upper_char :: "char \<Rightarrow> char" where
  "upper_char c = (case map_of (zip ''abcdefghijklmnopqrstuvwxyz''
                                     ''ABCDEFGHIJKLMNOPQRSTUVWXYZ'') c of
                     Some d \<Rightarrow> d | None \<Rightarrow> c)"

definition lower :: "string \<Rightarrow> string" where
  "lower s = map lower_char s"

text \<open>\<open>str.title\<close>: the first letter of every run of letters in upper case, the others in
  lower case. The flag says whether the previous character was a letter.\<close>

fun title_from :: "bool \<Rightarrow> string \<Rightarrow> string" where
  "title_from prev [] = []"
| "title_from prev (c # cs) =
     (if isupper c \<or> islower c
      then (if prev then lower_char c else upper_char c) # title_from True cs
      else c # title_from False cs)"

definition title :: "string \<Rightarrow> string" where
  "title s = title_from False s"

definition strip :: "string \<Rightarrow> string" where
  "strip s = rev (dropWhile isspace (rev (dropWhile isspace s)))"

text \<open>\<open>sep.join(xs)\<close>.\<close>

fun join :: "string \<Rightarrow> string list \<Rightarrow> string" where
  "join sep [] = []"
| "join sep [x] = x"
| "join sep (x # y # ys) = x @ sep @ join sep (y # ys)"

text \<open>\<open>s.split(sep)\<close> for a separator that is not empty (Python raises ValueError on the
  empty one; the only call of the program passes a literal): the occurrences of \<open>sep\<close>
  are taken from the left, without overlap.\<close>

function split :: "string \<Rightarrow> string \<Rightarrow> string list" where
  "split sep [] = [] # []"
| "split sep (c # cs) =
     (if sep \<noteq> [] \<and> prefix sep (c # cs)
      then [] # split sep (drop (length sep) (c # cs))
      else (case split sep cs of
              [] \<Rightarrow> [c] # []
            | p # ps \<Rightarrow> (c # p) # ps))"
  by pat_completeness auto
termination
  by (relation "measure (\<lambda>(sep, s). length s)") (auto simp: neq_Nil_conv)

subsection \<open>Integers and their decimal text\<close>

definition digit_val :: "char \<Rightarrow> nat" where
  "digit_val c = (case map_of (zip ''0123456789'' [0, 1, 2, 3, 4, 5, 6, 7, 8, 9]) c of
                    Some d \<Rightarrow> d | None \<Rightarrow> 0)"

definition digits_val :: "string \<Rightarrow> nat" where
  "digits_val s = foldl (\<lambda>a c. 10 * a + digit_val c) 0 s"

text \<open>The digit part of an integer literal accepted by \<open>int\<close>: digits, with single
  underscores between two digits only.\<close>

fun digits_ok :: "string \<Rightarrow> bool" where
  "digits_ok [] = False"
| "digits_ok [c] = isdigit c"
| "digits_ok (c # d # r) =
     (isdigit c \<and> (if d = CHR ''_'' then r \<noteq> [] \<and> digits_ok r else digits_ok (d # r)))"

text \<open>The default of \<open>sys.int_info.default_max_str_digits\<close>: a longer literal raises
  ValueError.\<close>

definition max_str_digits :: nat where
  "max_str_digits = 4300"

text \<open>\<open>int(s)\<close> in base ten; \<open>None\<close> is ValueError.\<close>

definition py_int :: "string \<Rightarrow> int option" where
  "py_int s =
     (let t = strip s;
          neg = (t \<noteq> [] \<and> hd t = CHR ''-'');
          body = (if t \<noteq> [] \<and> (hd t = CHR ''-'' \<or> hd t = CHR ''+'') then tl t else t);
          ds = filter isdigit body
      in if digits_ok body \<and> length ds \<le> max_str_digits
         then Some (if neg then - int (digits_val ds) else int (digits_val ds))
         else None)"

function str_nat :: "nat \<Rightarrow> string" where
  "str_nat n = (if n < 10 then [''0123456789'' ! n]
                else str_nat (n div 10) @ [''0123456789'' ! (n mod 10)])"
  by pat_completeness auto
termination
  by (relation "measure id") auto

declare str_nat.simps [simp del]

text \<open>\<open>str(n)\<close> for an integer.\<close>

definition str_int :: "int \<Rightarrow> string" where
  "str_int n = (if n < 0 then CHR ''-'' # str_nat (nat (- n)) else str_nat (nat n))"

section \<open>Author formatting\<close>

definition format_authors :: "string \<Rightarrow> string" where
  "format_authors authors_str =
     (if authors_str = [] then []
      else let authors = map strip (split '' and '' authors_str) in
        if length authors = 1 then authors ! 0
        else if length authors = 2 then authors ! 0 @ '' and '' @ authors ! 1
        else if length authors \<le> 4 then join '', '' (butlast authors) @ '', and '' @ last authors
        else join '', '' (take 3 authors) @ '', et al.'')"

section \<open>Dictionaries\<close>

text \<open>
  A Python \<open>dict\<close> is an association list with distinct keys, in insertion order:
  \<open>d[k] = v\<close> is \<open>AList.update k v d\<close> (a present key keeps its place, a new one goes
  to the end), \<open>d.items()\<close> is the list itself.
\<close>

definition get :: "(string \<times> 'v) list \<Rightarrow> string \<Rightarrow> 'v \<Rightarrow> 'v" where
  "get d k dflt = (case map_of d k of Some v \<Rightarrow> v | None \<Rightarrow> dflt)"

section \<open>Regular expressions\<close>

text \<open>
  \<open>re.finditer\<close> for a pattern given by its matcher at the head of a text: the matcher
  returns the groups and the text after the match. The scan goes from the left, and
  resumes where a match ended (one character further after an empty match).
\<close>

function finditer :: "(string \<Rightarrow> ('g \<times> string) option) \<Rightarrow> string \<Rightarrow> 'g list" where
  "finditer m [] = (case m [] of Some (g, rest) \<Rightarrow> [g] | None \<Rightarrow> [])"
| "finditer m (c # cs) =
     (case m (c # cs) of
        Some (g, rest) \<Rightarrow>
          if length rest < length (c # cs) then g # finditer m rest else g # finditer m cs
      | None \<Rightarrow> finditer m cs)"
  by pat_completeness auto
termination
  by (relation "measure (\<lambda>(m, s). length s)") auto

text \<open>\<open>re.sub(r'\{([^}]+)\}', r'\1', s)\<close>: an opening brace, the longest run of
  characters other than the closing brace (at least one) and a closing brace are replaced
  by the run.\<close>

function sub_braces :: "string \<Rightarrow> string" where
  "sub_braces [] = []"
| "sub_braces (c # cs) =
     (if c = CHR ''{'' \<and> takeWhile (\<lambda>x. x \<noteq> CHR ''}'') cs \<noteq> []
         \<and> dropWhile (\<lambda>x. x \<noteq> CHR ''}'') cs \<noteq> []
      then takeWhile (\<lambda>x. x \<noteq> CHR ''}'') cs @ sub_braces (tl (dropWhile (\<lambda>x. x \<noteq> CHR ''}'') cs))
      else c # sub_braces cs)"
  by pat_completeness auto
termination
proof (relation "measure length")
  show "wf (measure length)" by simp
next
  fix c :: char and cs :: string
  have "length (tl (dropWhile (\<lambda>x. x \<noteq> CHR ''}'') cs)) \<le> length cs"
    using length_dropWhile_le [of "\<lambda>x. x \<noteq> CHR ''}''" cs] by simp
  then show "(tl (dropWhile (\<lambda>x. x \<noteq> CHR ''}'') cs), c # cs) \<in> measure length"
    by simp
next
  fix c :: char and cs :: string
  show "(cs, c # cs) \<in> measure length" by simp
qed

section \<open>The entries\<close>

text \<open>The dictionary with the keys \<open>'type'\<close>, \<open>'key'\<close>, \<open>'year'\<close> and \<open>'fields'\<close> that
  \<open>parse_bibtex\<close> builds for an entry.\<close>

record entry =
  e_type :: string
  e_key :: string
  e_year :: int
  e_fields :: "(string \<times> string) list"

section \<open>Citation formatter\<close>

text \<open>The venue segment of \<open>format_publication\<close>, by entry type.\<close>

definition venue_parts :: "entry \<Rightarrow> string list" where
  "venue_parts e =
     (if e_type e = ''inproceedings'' then
        (let booktitle = strip (get (e_fields e) ''booktitle'' []) in
           if booktitle \<noteq> [] then [''In '' @ booktitle] else [])
      else if e_type e = ''article'' then
        (let journal = strip (get (e_fields e) ''journal'' []) in
           if journal \<noteq> [] then [''In *'' @ journal @ ''*''] else [])
      else if e_type e = ''inbook'' \<or> e_type e = ''incollection'' then
        (let booktitle = strip (get (e_fields e) ''booktitle'' []) in
           if booktitle \<noteq> [] then [''In '' @ booktitle] else [])
      else [])"

definition citation_parts :: "entry \<Rightarrow> string list" where
  "citation_parts e =
     (let title = sub_braces (strip (get (e_fields e) ''title'' []));
          authors = format_authors (get (e_fields e) ''author'' [])
      in (if authors \<noteq> [] then [''**'' @ authors @ ''**''] else [])
       @ (if title \<noteq> [] then [''*'' @ title @ ''*''] else [])
       @ venue_parts e
       @ [''('' @ str_int (e_year e) @ '')''])"

definition links :: "entry \<Rightarrow> string list" where
  "links e =
     (case map_of (e_fields e) ''url'' of
        Some url \<Rightarrow> [''[PDF]('' @ strip url @ '')'']
      | None \<Rightarrow> [])
   @ (case map_of (e_fields e) ''doi'' of
        Some doi \<Rightarrow> [''[DOI](https://doi.org/'' @ strip doi @ '')'']
      | None \<Rightarrow> [])"

definition format_publication :: "entry \<Rightarrow> string \<Rightarrow> string" where
  "format_publication e category =
     (let citation = join ''. '' (citation_parts e)
      in ''- '' @ (if links e \<noteq> [] then citation @ '' '' @ join '' | '' (links e)
                   else citation))"

section \<open>Category index builder\<close>

text \<open>
  A Python \<open>set\<close> of strings keeps its members in an order that depends on their hashes,
  which change from one run of the interpreter to the next. A set is modelled as the list
  of its members in that order, and the parameter \<open>layout\<close> of the builder is the
  arrangement that the run gives to a collection of members. The program only asks a
  set for membership.
\<close>

type_synonym pyset = "string list"

type_synonym categories = "(string \<times> pyset) list"

text \<open>The pattern \<open>\\addtocategory\{(\w+)\}\s*\{([^}]+)\}\<close> at the head of a text.\<close>

definition addtocategory_match :: "string \<Rightarrow> ((string \<times> string) \<times> string) option" where
  "addtocategory_match s =
     (let lit = CHR 0x5C # ''addtocategory{'' in
      if \<not> prefix lit s then None
      else let r = drop (length lit) s;
               category = takeWhile isword r
           in if category = [] then None
              else (case dropWhile isword r of
                      [] \<Rightarrow> None
                    | b # r2 \<Rightarrow>
                        if b \<noteq> CHR ''}'' then None
                        else (case dropWhile isspace r2 of
                                [] \<Rightarrow> None
                              | b2 # r3 \<Rightarrow>
                                  if b2 \<noteq> CHR ''{'' then None
                                  else let entries_str = takeWhile (\<lambda>x. x \<noteq> CHR ''}'') r3;
                                           r4 = dropWhile (\<lambda>x. x \<noteq> CHR ''}'') r3
                                       in if entries_str = [] \<or> r4 = [] then None
                                          else Some ((category, entries_str), tl r4))))"

text \<open>The body of the loop over the matches: \<open>categories[category].update(entries)\<close> on a
  \<open>defaultdict(set)\<close>.\<close>

definition add_to_category ::
  "(string list \<Rightarrow> pyset) \<Rightarrow> categories \<Rightarrow> string \<times> string \<Rightarrow> categories" where
  "add_to_category layout cats m =
     (let category = fst m;
          entries = filter (\<lambda>e. e \<noteq> []) (map strip (split '','' (snd m)))
      in AList.update category (layout (get cats category [] @ entries)) cats)"

text \<open>The file is \<open>None\<close> when it does not exist. The result is what is printed and the
  mapping.\<close>

definition parse_bib_entries_sty ::
  "(string list \<Rightarrow> pyset) \<Rightarrow> string \<Rightarrow> string option \<Rightarrow> string list \<times> categories" where
  "parse_bib_entries_sty layout file_path file =
     (case file of
        None \<Rightarrow> ([''Warning: '' @ file_path @ '' not found''], [])
      | Some content \<Rightarrow>
          ([], foldl (add_to_category layout) [] (finditer addtocategory_match content)))"

section \<open>Bibliography parser\<close>

text \<open>\<open>re.sub(r'%.*$', '', content, flags=re.MULTILINE)\<close>: a percent sign and the rest of
  its line are removed.\<close>

function strip_comments :: "string \<Rightarrow> string" where
  "strip_comments [] = []"
| "strip_comments (c # cs) =
     (if c = CHR ''%'' then strip_comments (dropWhile (\<lambda>x. x \<noteq> CHR 0x0A) cs)
      else c # strip_comments cs)"
  by pat_completeness auto
termination
proof (relation "measure length")
  show "wf (measure length)" by simp
next
  fix c :: char and cs :: string
  show "(dropWhile (\<lambda>x. x \<noteq> CHR 0x0A) cs, c # cs) \<in> measure length"
    using length_dropWhile_le [of "\<lambda>x. x \<noteq> CHR 0x0A" cs] by simp
next
  fix c :: char and cs :: string
  show "(cs, c # cs) \<in> measure length" by simp
qed

text \<open>The pattern \<open>@(\w+)\{([^,]+),([^@]*?)(?=@|\Z)\<close> with DOTALL at the head of a text:
  the groups are the type, the key and the body, which runs to the next \<open>@\<close> or to the
  end of the text.\<close>

definition entry_match :: "string \<Rightarrow> ((string \<times> string \<times> string) \<times> string) option" where
  "entry_match s =
     (case s of
        [] \<Rightarrow> None
      | a # r \<Rightarrow>
          if a \<noteq> CHR ''@'' \<or> takeWhile isword r = [] then None
          else (case dropWhile isword r of
                  [] \<Rightarrow> None
                | b # r2 \<Rightarrow>
                    if b \<noteq> CHR ''{'' then None
                    else let k = takeWhile (\<lambda>x. x \<noteq> CHR '','') r2;
                             r3 = dropWhile (\<lambda>x. x \<noteq> CHR '','') r2
                         in if k = [] \<or> r3 = [] then None
                            else Some ((takeWhile isword r, k,
                                        takeWhile (\<lambda>x. x \<noteq> CHR ''@'') (tl r3)),
                                       dropWhile (\<lambda>x. x \<noteq> CHR ''@'') (tl r3))))"

text \<open>The common head \<open>(\w+)\s*=\s*\<close> of the three field patterns: the name and the text
  after the head.\<close>

definition name_eq_match :: "string \<Rightarrow> (string \<times> string) option" where
  "name_eq_match s =
     (if takeWhile isword s = [] then None
      else (case dropWhile isspace (dropWhile isword s) of
              [] \<Rightarrow> None
            | b # r \<Rightarrow>
                if b \<noteq> CHR ''='' then None
                else Some (takeWhile isword s, dropWhile isspace r)))"

definition nonbrace :: "char \<Rightarrow> bool" where
  "nonbrace c \<longleftrightarrow> c \<noteq> CHR ''{'' \<and> c \<noteq> CHR ''}''"

text \<open>\<open>([^{}]*(?:\{[^{}]*\}[^{}]*)*)\}\<close>: a value with groups in braces nested one level
  deep, and the closing brace of the field.\<close>

function braced_value :: "string \<Rightarrow> (string \<times> string) option" where
  "braced_value s =
     (case dropWhile nonbrace s of
        [] \<Rightarrow> None
      | c # r \<Rightarrow>
          if c = CHR ''}'' then Some (takeWhile nonbrace s, r)
          else (case dropWhile nonbrace r of
                  [] \<Rightarrow> None
                | d # r2 \<Rightarrow>
                    if d = CHR ''}'' then
                      (case braced_value r2 of
                         None \<Rightarrow> None
                       | Some (v, rest) \<Rightarrow>
                           Some (takeWhile nonbrace s @ [c] @ takeWhile nonbrace r @ [d] @ v,
                                 rest))
                    else None))"
  by pat_completeness auto
termination
proof (relation "measure length")
  show "wf (measure length)" by simp
next
  fix s r r2 :: string and c d :: char
  assume a: "dropWhile nonbrace s = c # r" and b: "dropWhile nonbrace r = d # r2"
  have "length (c # r) \<le> length s"
    using length_dropWhile_le [of nonbrace s] a by simp
  moreover have "length (d # r2) \<le> length r"
    using length_dropWhile_le [of nonbrace r] b by simp
  ultimately show "(r2, s) \<in> measure length" by simp
qed

declare braced_value.simps [simp del]

text \<open>The three field patterns \<open>(\w+)\s*=\s*\{...\}\<close>, \<open>(\w+)\s*=\s*"([^"]*)"\<close> and
  \<open>(\w+)\s*=\s*(\d+)\<close> at the head of a text.\<close>

definition braced_field_match :: "string \<Rightarrow> ((string \<times> string) \<times> string) option" where
  "braced_field_match s =
     (case name_eq_match s of
        None \<Rightarrow> None
      | Some (name, r) \<Rightarrow>
          (case r of
             [] \<Rightarrow> None
           | b # r2 \<Rightarrow>
               if b \<noteq> CHR ''{'' then None
               else (case braced_value r2 of
                       None \<Rightarrow> None
                     | Some (v, rest) \<Rightarrow> Some ((name, v), rest))))"

definition quoted_field_match :: "string \<Rightarrow> ((string \<times> string) \<times> string) option" where
  "quoted_field_match s =
     (case name_eq_match s of
        None \<Rightarrow> None
      | Some (name, r) \<Rightarrow>
          (case r of
             [] \<Rightarrow> None
           | b # r2 \<Rightarrow>
               if b \<noteq> CHR 0x22 \<or> dropWhile (\<lambda>x. x \<noteq> CHR 0x22) r2 = [] then None
               else Some ((name, takeWhile (\<lambda>x. x \<noteq> CHR 0x22) r2),
                          tl (dropWhile (\<lambda>x. x \<noteq> CHR 0x22) r2))))"

definition number_field_match :: "string \<Rightarrow> ((string \<times> string) \<times> string) option" where
  "number_field_match s =
     (case name_eq_match s of
        None \<Rightarrow> None
      | Some (name, r) \<Rightarrow>
          if takeWhile isdigit r = [] then None
          else Some ((name, takeWhile isdigit r), dropWhile isdigit r))"

text \<open>The body of the loop over the field matches.\<close>

definition set_field :: "(string \<times> string) list \<Rightarrow> string \<times> string \<Rightarrow> (string \<times> string) list" where
  "set_field flds m = AList.update (lower (fst m)) (strip (sub_braces (snd m))) flds"

definition parse_fields :: "string \<Rightarrow> (string \<times> string) list" where
  "parse_fields fields_str =
     foldl set_field []
       (finditer braced_field_match fields_str
        @ finditer quoted_field_match fields_str
        @ finditer number_field_match fields_str)"

text \<open>The year of an entry: the \<open>year\<close> field as an integer, 0 when it is absent, empty
  or no integer.\<close>

definition year_int_of :: "(string \<times> string) list \<Rightarrow> int" where
  "year_int_of flds =
     (let year_str = strip (get flds ''year'' [])
      in if year_str = [] then 0
         else (case py_int year_str of Some n \<Rightarrow> n | None \<Rightarrow> 0))"

text \<open>What either mode reads from an entry record of the file: the type, the key and
  the fields.\<close>

type_synonym bib_record = "string \<times> string \<times> (string \<times> string) list"

definition make_entry :: "bib_record \<Rightarrow> entry" where
  "make_entry r =
     \<lparr>e_type = fst r, e_key = fst (snd r), e_year = year_int_of (snd (snd r)),
      e_fields = snd (snd r)\<rparr>"

text \<open>The end of the body of both loops: the entry is stored from 2022 onwards.\<close>

definition store_entry :: "(string \<times> entry) list \<Rightarrow> bib_record \<Rightarrow> (string \<times> entry) list" where
  "store_entry entries r =
     (if year_int_of (snd (snd r)) \<ge> 2022
      then AList.update (fst (snd r)) (make_entry r) entries
      else entries)"

text \<open>An entry of \<open>bib_database.entries\<close> is a dictionary of strings with the keys
  \<open>ID\<close> and \<open>ENTRYTYPE\<close> beside the fields.\<close>

definition robust_record :: "(string \<times> string) list \<Rightarrow> bib_record" where
  "robust_record entry = (lower (get entry ''ENTRYTYPE'' []), get entry ''ID'' [], entry)"

definition fallback_record :: "string \<times> string \<times> string \<Rightarrow> bib_record" where
  "fallback_record m = (lower (fst m), strip (fst (snd m)), parse_fields (snd (snd m)))"

text \<open>The records that the loop of each mode goes through. The bibtexparser library is
  not part of the program: \<open>load\<close> is what it returns for the content of a file.\<close>

definition bib_records ::
  "(string \<Rightarrow> (string \<times> string) list list) \<Rightarrow> bool \<Rightarrow> string \<Rightarrow> bib_record list" where
  "bib_records load has_bibtexparser content =
     (if has_bibtexparser then map robust_record (load content)
      else map fallback_record (finditer entry_match (strip_comments content)))"

definition parse_bibtex ::
  "(string \<Rightarrow> (string \<times> string) list list) \<Rightarrow> bool \<Rightarrow> string \<Rightarrow> string option
     \<Rightarrow> string list \<times> (string \<times> entry) list" where
  "parse_bibtex load has_bibtexparser file_path file =
     (case file of
        None \<Rightarrow> ([''Warning: '' @ file_path @ '' not found''], [])
      | Some content \<Rightarrow> ([], foldl store_entry [] (bib_records load has_bibtexparser content)))"

section \<open>Page assembler\<close>

definition CATEGORY_NAMES :: "(string \<times> string) list" where
  "CATEGORY_NAMES =
     [(''thesis'', ''Theses''),
      (''books'', ''Books''),
      (''chapters'', ''Book Chapters''),
      (''journals'', ''Journal Articles''),
      (''magazines'', ''Magazine Articles''),
      (''conferences'', ''Conference Papers''),
      (''workshops'', ''Workshop Papers''),
      (''posters'', ''Poster Papers''),
      (''demos'', ''Demo Papers''),
      (''techreports'', ''Technical Reports''),
      (''patents'', ''Patents'')]"

definition category_order :: "string list" where
  "category_order =
     [''books'', ''chapters'', ''journals'', ''conferences'', ''workshops'',
      ''techreports'', ''posters'', ''demos'', ''thesis'', ''magazines'', ''patents'']"

text \<open>The inner loop of the grouping: the first category of \<open>categories.items()\<close> whose
  set has the key.\<close>

fun find_category :: "categories \<Rightarrow> string \<Rightarrow> string option" where
  "find_category [] k = None"
| "find_category ((cat, keys) # rest) k =
     (if k \<in> set keys then Some cat else find_category rest k)"

text \<open>The body of the outer loop, on the pair of \<open>categorized\<close> (a \<open>defaultdict(list)\<close>)
  and \<open>uncategorized\<close>.\<close>

definition place_entry ::
  "categories \<Rightarrow> (string \<times> entry list) list \<times> entry list \<Rightarrow> string \<times> entry
     \<Rightarrow> (string \<times> entry list) list \<times> entry list" where
  "place_entry categories st item =
     (case find_category categories (fst item) of
        Some cat \<Rightarrow> (AList.update cat (get (fst st) cat [] @ [snd item]) (fst st), snd st)
      | None \<Rightarrow> (fst st, snd st @ [snd item]))"

definition organize ::
  "(string \<times> entry) list \<Rightarrow> categories \<Rightarrow> (string \<times> entry list) list \<times> entry list" where
  "organize entries categories = foldl (place_entry categories) ([], []) entries"

text \<open>\<open>sort(key=lambda x: x['year'], reverse=True)\<close>: a stable sort, and with
  \<open>reverse=True\<close> entries of the same year keep their order.\<close>

definition sort_by_year :: "entry list \<Rightarrow> entry list" where
  "sort_by_year es = sort_key (\<lambda>x. - e_year x) es"

text \<open>The loop that sorts every list of \<open>categorized\<close> in place.\<close>

definition sort_categorized :: "(string \<times> entry list) list \<Rightarrow> (string \<times> entry list) list" where
  "sort_categorized categorized = map (\<lambda>b. (fst b, sort_by_year (snd b))) categorized"

text \<open>The lines of one section: heading, wrapper and one item for each entry.\<close>

definition section_lines :: "string \<Rightarrow> string \<Rightarrow> entry list \<Rightarrow> string list" where
  "section_lines heading tag es =
     [''### '' @ heading,
      [],
      ''```{=html}'',
      ''<div class='pub-category' data-category='' @ CHR 0x27 # tag @ CHR 0x27 # ''>'',
      ''```'',
      []]
     @ concat (map (\<lambda>e. [format_publication e tag, []]) es)
     @ [''```{=html}'',
        ''</div>'',
        ''```'',
        []]"

definition category_section :: "(string \<times> entry list) list \<Rightarrow> string \<Rightarrow> string list" where
  "category_section categorized cat =
     (if map_of categorized cat \<noteq> None \<and> get categorized cat [] \<noteq> []
      then section_lines (get CATEGORY_NAMES cat (title cat)) cat (get categorized cat [])
      else [])"

text \<open>The lines before the sections.\<close>

definition header_lines :: "string list" where
  \<open>header_lines =
    [''---'',
     ''title: "Publications"'',
     ''---'',
     [],
     ''```{=html}'',
     ''<div style='margin: 2rem 0;'>'',
     ''<input type='text' id='pubSearch' placeholder='Search publications...' '',
     ''       style='width: 100%; padding: 0.75rem; font-size: 1rem; border: 2px solid #ddd; border-radius: 8px;' />'',
     ''</div>'',
     ''```'',
     [],
     ''```{=html}'',
     ''<div id='publications-container'>'',
     ''```'',
     []]\<close>

text \<open>The lines after the sections: the end of the container and the search script.\<close>

definition footer_lines :: "string list" where
  \<open>footer_lines =
    [''```{=html}'',
     ''</div>'',
     ''```'',
     [],
     ''```{=html}'',
     ''<script>'',
     ''document.addEventListener('DOMContentLoaded', function() {'',
     ''  const searchInput = document.getElementById('pubSearch');'',
     ''  const categories = document.querySelectorAll('.pub-category');'',
     [],
     ''  searchInput.addEventListener('input', function(e) {'',
     ''    const searchTerm = e.target.value.toLowerCase();'',
     [],
     ''    categories.forEach(category => {'',
     ''      const items = category.querySelectorAll('li');'',
     ''      let hasVisible = false;'',
     [],
     ''      items.forEach(item => {'',
     ''        const text = item.textContent.toLowerCase();'',
     ''        if (text.includes(searchTerm)) {'',
     ''          item.style.display = '' @ CHR 0x27 # CHR 0x27 # '';'',
     ''          hasVisible = true;'',
     ''        } else {'',
     ''          item.style.display = 'none';'',
     ''        }'',
     ''      });'',
     [],
     ''      // Hide category if no visible items'',
     ''      const categoryHeading = category.previousElementSibling;'',
     ''      if (categoryHeading && categoryHeading.tagName === 'H3') {'',
     ''        if (hasVisible || searchTerm === '' @ CHR 0x27 # CHR 0x27 # '') {'',
     ''          categoryHeading.style.display = '' @ CHR 0x27 # CHR 0x27 # '';'',
     ''          category.style.display = '' @ CHR 0x27 # CHR 0x27 # '';'',
     ''        } else {'',
     ''          categoryHeading.style.display = 'none';'',
     ''          category.style.display = 'none';'',
     ''        }'',
     ''      }'',
     ''    });'',
     ''  });'',
     ''});'',
     ''</script>'',
     ''```'']\<close>

definition page_lines :: "(string \<times> entry) list \<Rightarrow> categories \<Rightarrow> string list" where
  "page_lines entries categories =
     (let organized = organize entries categories;
          categorized = sort_categorized (fst organized);
          uncategorized = snd organized
      in header_lines
         @ concat (map (category_section categorized) category_order)
         @ (if uncategorized \<noteq> []
            then section_lines ''Other Publications'' ''other'' (sort_by_year uncategorized)
            else [])
         @ footer_lines)"

definition generate_publications_page :: "(string \<times> entry) list \<Rightarrow> categories \<Rightarrow> string" where
  "generate_publications_page entries categories =
     join [CHR 0x0A] (page_lines entries categories)"

section \<open>The run\<close>

text \<open>What a run reads: the two files (\<open>None\<close> when absent) with their paths, the path
  of the output, and whether bibtexparser could be imported.\<close>

record world =
  categories_path :: string
  categories_file :: "string option"
  bib_path :: string
  bib_file :: "string option"
  output_path :: string
  has_bibtexparser :: bool

text \<open>\<open>main\<close> returns what it prints and the text that it writes to the output file.\<close>

definition main ::
  "(string list \<Rightarrow> pyset) \<Rightarrow> (string \<Rightarrow> (string \<times> string) list list) \<Rightarrow> world
     \<Rightarrow> string list \<times> string" where
  "main layout load w =
     (let parsed_categories = parse_bib_entries_sty layout (categories_path w) (categories_file w);
          parsed_entries = parse_bibtex load (has_bibtexparser w) (bib_path w) (bib_file w);
          categories = snd parsed_categories;
          entries = snd parsed_entries;
          content = generate_publications_page entries categories
      in ([''Parsing bibliography files...'']
          @ fst parsed_categories
          @ fst parsed_entries
          @ [''Found '' @ str_int (int (length entries)) @ '' publications from 2022 onwards'',
             ''Found '' @ str_int (int (length categories)) @ '' categories'',
             ''Generating publications page...'',
             ''Generated '' @ output_path w,
             ''Done! You can now render the site with 'quarto render'' @ [CHR 0x27]],
          content))"

section \<open>The assignment of the specification, and sample inputs\<close>

text \<open>The assignment as the specification words it, to be compared with \<open>find_category\<close>:
  the first category of the fixed display order whose set in the index has the key.\<close>

definition priority_category :: "categories \<Rightarrow> string \<Rightarrow> string option" where
  "priority_category cats k = List.find (\<lambda>cat. k \<in> set (get cats cat [])) category_order"

text \<open>The library of a run in fallback mode, where it is not called.\<close>

definition no_library :: "string \<Rightarrow> (string \<times> string) list list" where
  "no_library content = []"

text \<open>The files of the end-to-end scenario of the specification: one article, and one
  directive that puts its key in the category \<open>journals\<close>; and the dictionary that the
  library gives for the article.\<close>

definition scenario_bib :: string where
  "scenario_bib =
     ''@article{foo2023,'' @ [CHR 0x0A] @
     ''  author = {Jane Doe},'' @ [CHR 0x0A] @
     ''  title = {A Great Paper},'' @ [CHR 0x0A] @
     ''  journal = {Journal of Tests},'' @ [CHR 0x0A] @
     ''  year = 2023,'' @ [CHR 0x0A] @
     ''  doi = {10.1/xyz}'' @ [CHR 0x0A] @
     ''}'' @ [CHR 0x0A]"

definition scenario_sty :: string where
  "scenario_sty = CHR 0x5C # ''addtocategory{journals}{foo2023}'' @ [CHR 0x0A]"


text \<open>A run in fallback mode on the given files.\<close>

abbreviation fallback_world :: "string option \<Rightarrow> string option \<Rightarrow> world" where
  "fallback_world sty bib \<equiv>
     \<lparr>categories_path = ''bib-entries.sty'', categories_file = sty,
      bib_path = ''citations.bib'', bib_file = bib,
      output_path = ''publications.qmd'', has_bibtexparser = False\<rparr>"

text \<open>Two indexes with the same categories in the same order, and the same members in
  the set of each category.\<close>

abbreviation same_index :: "categories \<Rightarrow> categories \<Rightarrow> bool" where
  "same_index a b \<equiv> list_all2 (\<lambda>p q. fst p = fst q \<and> set (snd p) = set (snd q)) a b"

text \<open>The entry that the parser builds for a record of type \<open>misc\<close> with the key \<open>k\<close> and
  the year \<open>y\<close> as its only field.\<close>

abbreviation sample_entry :: "string \<Rightarrow> int \<Rightarrow> entry" where
  "sample_entry k y \<equiv>
     \<lparr>e_type = ''misc'', e_key = k, e_year = y, e_fields = [(''year'', str_int y)]\<rparr>"

section \<open>Properties of the author formatter\<close>

text \<open>\<open>split\<close> cuts its text at occurrences of the separator only: joining the pieces
  with the separator gives the text back.\<close>

lemma split_not_Nil: "split sep s \<noteq> []"
  by (induction sep s rule: split.induct) (auto split: list.splits)

lemma join_Cons_Nil: "ps \<noteq> [] \<Longrightarrow> join sep ([] # ps) = sep @ join sep ps"
  by (cases ps) auto

lemma join_Cons_hd: "join sep ((c # p) # ps) = c # join sep (p # ps)"
  by (cases ps) auto

lemma join_split: "sep \<noteq> [] \<Longrightarrow> join sep (split sep s) = s"
proof (induction sep s rule: split.induct)
  case (1 sep)
  then show ?case by simp
next
  case (2 sep c cs)
  show ?case
  proof (cases "prefix sep (c # cs)")
    case True
    have s1: "split sep (c # cs) = [] # split sep (drop (length sep) (c # cs))"
      using True 2(3) by simp
    have ih: "join sep (split sep (drop (length sep) (c # cs))) = drop (length sep) (c # cs)"
      using 2 True by simp
    have "sep @ drop (length sep) (c # cs) = c # cs"
      using True by (metis append_eq_conv_conj prefix_def)
    then show ?thesis
      unfolding s1 using ih by (simp add: join_Cons_Nil split_not_Nil)
  next
    case False
    then have ih: "join sep (split sep cs) = cs" using 2 by simp
    obtain p ps where ps: "split sep cs = p # ps"
      using split_not_Nil [of sep cs] by (cases "split sep cs") auto
    show ?thesis using False ih ps by (simp add: join_Cons_hd)
  qed
qed



section \<open>Properties of the page assembler\<close>

lemma get_update: "get (AList.update k v d) c dflt = (if c = k then v else get d c dflt)"
  by (simp add: get_def update_conv')

lemma find_category_None:
  "find_category cats k = None \<longleftrightarrow> (\<forall>p \<in> set cats. k \<notin> set (snd p))"
  by (induction cats k rule: find_category.induct) auto

lemma find_category_Some:
  "find_category cats k = Some c \<longleftrightarrow>
     (\<exists>pre ks post. cats = pre @ (c, ks) # post \<and> k \<in> set ks \<and> (\<forall>p \<in> set pre. k \<notin> set (snd p)))"
proof (induction cats k rule: find_category.induct)
  case (1 k)
  then show ?case by simp
next
  case (2 cat keys rest k)
  show ?case
  proof (cases "k \<in> set keys")
    case True
    have "\<exists>pre ks post. (cat, keys) # rest = pre @ (cat, ks) # post \<and> k \<in> set ks
            \<and> (\<forall>p \<in> set pre. k \<notin> set (snd p))"
      using True by (intro exI [of _ "[]"] exI [of _ keys] exI [of _ rest]) simp
    moreover have "c = cat"
      if "(cat, keys) # rest = pre @ (c, ks) # post" "\<forall>p \<in> set pre. k \<notin> set (snd p)"
      for pre ks post
      using that True by (cases pre) auto
    ultimately show ?thesis using True by auto
  next
    case False
    have "(\<exists>pre ks post. (cat, keys) # rest = pre @ (c, ks) # post \<and> k \<in> set ks
            \<and> (\<forall>p \<in> set pre. k \<notin> set (snd p)))
        \<longleftrightarrow> (\<exists>pre ks post. rest = pre @ (c, ks) # post \<and> k \<in> set ks
            \<and> (\<forall>p \<in> set pre. k \<notin> set (snd p)))" (is "?L \<longleftrightarrow> ?R")
    proof
      assume ?L
      then obtain pre ks post where h: "(cat, keys) # rest = pre @ (c, ks) # post" "k \<in> set ks"
        "\<forall>p \<in> set pre. k \<notin> set (snd p)" by blast
      then obtain pre' where "pre = (cat, keys) # pre'" using False by (cases pre) auto
      then show ?R using h by auto
    next
      assume ?R
      then obtain pre ks post where h: "rest = pre @ (c, ks) # post" "k \<in> set ks"
        "\<forall>p \<in> set pre. k \<notin> set (snd p)" by blast
      show ?L
        using h False by (intro exI [of _ "(cat, keys) # pre"] exI [of _ ks] exI [of _ post]) simp
    qed
    then show ?thesis using False 2 by simp
  qed
qed

lemma foldl_place_entry:
  "snd (foldl (place_entry cats) st es)
     = snd st @ map snd (filter (\<lambda>it. find_category cats (fst it) = None) es) \<and>
   get (fst (foldl (place_entry cats) st es)) c []
     = get (fst st) c [] @ map snd (filter (\<lambda>it. find_category cats (fst it) = Some c) es)"
proof (induction es arbitrary: st)
  case Nil
  then show ?case by simp
next
  case (Cons it es)
  show ?case
  proof (cases "find_category cats (fst it)")
    case None
    then have "place_entry cats st it = (fst st, snd st @ [snd it])"
      by (simp add: place_entry_def)
    then show ?thesis using Cons [of "(fst st, snd st @ [snd it])"] None by simp
  next
    case (Some cat)
    then have p: "place_entry cats st it
                  = (AList.update cat (get (fst st) cat [] @ [snd it]) (fst st), snd st)"
      by (simp add: place_entry_def)
    show ?thesis
      using Cons [of "(AList.update cat (get (fst st) cat [] @ [snd it]) (fst st), snd st)"] Some
      by (simp add: p get_update)
  qed
qed

lemma organize_uncategorized:
  "snd (organize entries cats)
     = map snd (filter (\<lambda>it. find_category cats (fst it) = None) entries)"
  using foldl_place_entry [of cats "([], [])" entries] by (simp add: organize_def)

lemma organize_categorized:
  "get (fst (organize entries cats)) c []
     = map snd (filter (\<lambda>it. find_category cats (fst it) = Some c) entries)"
  using foldl_place_entry [of cats "([], [])" entries c] by (simp add: organize_def get_def)

lemma get_sort_categorized:
  "get (sort_categorized d) c [] = sort_by_year (get d c [])"
  by (induction d) (auto simp: sort_categorized_def get_def sort_by_year_def)

lemma category_section_eq:
  "category_section d c =
     (if get d c [] \<noteq> [] then section_lines (get CATEGORY_NAMES c (title c)) c (get d c []) else [])"
  by (auto simp: category_section_def get_def split: option.splits)

lemma sort_by_year_Nil: "sort_by_year es = [] \<longleftrightarrow> es = []"
  unfolding sort_by_year_def by (metis length_0_conv length_sort)

lemma set_sort_by_year: "set (sort_by_year es) = set es"
  by (simp add: sort_by_year_def)

lemma sort_by_year_descending:
  "i < j \<Longrightarrow> j < length (sort_by_year es)
     \<Longrightarrow> e_year (sort_by_year es ! j) \<le> e_year (sort_by_year es ! i)"
proof -
  assume ij: "i < j" "j < length (sort_by_year es)"
  have "sorted (map (\<lambda>x. - e_year x) (sort_by_year es))"
    by (simp add: sort_by_year_def)
  then have "map (\<lambda>x. - e_year x) (sort_by_year es) ! i
               \<le> map (\<lambda>x. - e_year x) (sort_by_year es) ! j"
    using ij by (intro sorted_nth_mono) auto
  then show ?thesis using ij by simp
qed

lemma sort_by_year_stable:
  "filter (\<lambda>e. e_year e = y) (sort_by_year es) = filter (\<lambda>e. e_year e = y) es"
  using sort_key_stable [of "\<lambda>x. - e_year x" "- y" es] by (simp add: sort_by_year_def)

lemma page_lines_eq:
  "page_lines entries cats =
     header_lines
     @ concat (map (category_section (sort_categorized (fst (organize entries cats)))) category_order)
     @ (if snd (organize entries cats) \<noteq> []
        then section_lines ''Other Publications'' ''other'' (sort_by_year (snd (organize entries cats)))
        else [])
     @ footer_lines"
  by (simp add: page_lines_def Let_def)

text \<open>
  Claim C1, as the specification states it: an entry whose key is in several categories is
  assigned to the first of them in the fixed display order. The program does not do so:
  with the index \<open>journals, books\<close> (in the order of the categorization file) and the key
  in both sets, the fixed order gives \<open>books\<close>, and the entry is put and rendered under
  \<open>journals\<close>.
\<close>

theorem priority_order_counterexample:
  "snd (parse_bib_entries_sty remdups ''bib-entries.sty''
          (Some (CHR 0x5C # ''addtocategory{journals}{k}'' @ CHR 0x5C # ''addtocategory{books}{k}'')))
     = [(''journals'', [''k'']), (''books'', [''k''])] \<and>
   snd (parse_bibtex no_library False ''citations.bib'' (Some ''@misc{k, year = 2023}''))
     = [(''k'', sample_entry ''k'' 2023)] \<and>
   priority_category [(''journals'', [''k'']), (''books'', [''k''])] ''k'' = Some ''books'' \<and>
   find_category [(''journals'', [''k'']), (''books'', [''k''])] ''k'' = Some ''journals'' \<and>
   organize [(''k'', sample_entry ''k'' 2023)] [(''journals'', [''k'']), (''books'', [''k''])]
     = ([(''journals'', [sample_entry ''k'' 2023])], []) \<and>
   ''### Journal Articles'' \<in> set (page_lines [(''k'', sample_entry ''k'' 2023)]
                                      [(''journals'', [''k'']), (''books'', [''k''])]) \<and>
   ''### Books'' \<notin> set (page_lines [(''k'', sample_entry ''k'' 2023)]
                                      [(''journals'', [''k'']), (''books'', [''k''])])"
  by code_simp

text \<open>
  Claim C1, amended: the category assigned for rendering is the first category, in the
  order of the Category Index itself (the order in which the categories first occur in
  the categorization file), whose set contains the key; if no set contains the key the
  entry is uncategorized. The list of a category (and the uncategorized list) holds the
  entries so assigned, in the order of the entry mapping.
\<close>

theorem first_match_in_index_order:
  "(find_category cats k = None \<longleftrightarrow> (\<forall>p \<in> set cats. k \<notin> set (snd p))) \<and>
   (find_category cats k = Some c \<longleftrightarrow>
      (\<exists>pre ks post. cats = pre @ (c, ks) # post \<and> k \<in> set ks
         \<and> (\<forall>p \<in> set pre. k \<notin> set (snd p)))) \<and>
   get (fst (organize entries cats)) c []
     = map snd (filter (\<lambda>it. find_category cats (fst it) = Some c) entries) \<and>
   snd (organize entries cats)
     = map snd (filter (\<lambda>it. find_category cats (fst it) = None) entries)"
  using find_category_None [of cats k] find_category_Some [of cats k c]
    organize_categorized [of entries cats c] organize_uncategorized [of entries cats]
  by blast

theorem first_match_in_index_order_witness:
  "find_category [(''journals'', [''k'']), (''books'', [''k''])] ''k'' = Some ''journals'' \<and>
   find_category [(''journals'', [''j'']), (''books'', [''b''])] ''k'' = None"
proof -
  have "\<exists>pre ks post. [(''journals'', [''k'']), (''books'', [''k''])] = pre @ (''journals'', ks) # post
          \<and> ''k'' \<in> set ks \<and> (\<forall>p \<in> set pre. ''k'' \<notin> set (snd p))"
    by (intro exI [of _ "[]"] exI [of _ "[''k'']"] exI [of _ "[(''books'', [''k''])]"]) simp
  moreover have "\<forall>p \<in> set [(''journals'', [''j'']), (''books'', [''b''])]. ''k'' \<notin> set (snd p)"
    by simp
  ultimately show ?thesis
    using first_match_in_index_order
            [of "[(''journals'', [''k'']), (''books'', [''k''])]" "''k''" "''journals''" "[]"]
          first_match_in_index_order
            [of "[(''journals'', [''j'']), (''books'', [''b''])]" "''k''" "''journals''" "[]"]
    by blast
qed

text \<open>
  Claim C3, as the specification states it: an entry whose key is in the set of exactly
  one category is rendered under the heading of that category. It fails for a category
  outside the fixed display order: with the only category \<open>misc\<close> the page has no section
  at all.
\<close>

theorem unlisted_category_counterexample:
  "snd (parse_bib_entries_sty remdups ''bib-entries.sty''
          (Some (CHR 0x5C # ''addtocategory{misc}{k}'')))
     = [(''misc'', [''k''])] \<and>
   snd (parse_bibtex no_library False ''citations.bib'' (Some ''@misc{k, year = 2023}''))
     = [(''k'', sample_entry ''k'' 2023)] \<and>
   find_category [(''misc'', [''k''])] ''k'' = Some ''misc'' \<and>
   page_lines [(''k'', sample_entry ''k'' 2023)] [(''misc'', [''k''])] = header_lines @ footer_lines"
  by code_simp

text \<open>
  Claim C3, amended: an entry of the entry mapping (all of them have a year from 2022
  onwards) whose key is in the set of exactly one category, that category being one of
  the eleven of the fixed display order, is rendered under the heading of that category:
  the page contains the section of the category, and the list of the section contains
  the entry.
\<close>

theorem single_category_rendered:
  assumes "(k, e) \<in> set entries"
    and "(c, ks) \<in> set cats" and "k \<in> set ks"
    and "\<forall>p \<in> set cats. k \<in> set (snd p) \<longrightarrow> fst p = c"
    and "c \<in> set category_order"
  shows "\<exists>pre post es.
           page_lines entries cats
             = pre @ section_lines (get CATEGORY_NAMES c (title c)) c es @ post \<and>
           es = get (sort_categorized (fst (organize entries cats))) c [] \<and>
           e \<in> set es \<and>
           format_publication e c \<in> set (section_lines (get CATEGORY_NAMES c (title c)) c es)"
proof -
  have "find_category cats k \<noteq> None"
    using assms(2,3) find_category_None [of cats k] by fastforce
  then obtain c' where c': "find_category cats k = Some c'" by auto
  then obtain pre ks' post where "cats = pre @ (c', ks') # post" "k \<in> set ks'"
    by (auto simp: find_category_Some)
  then have "c' = c" using assms(4) by auto
  then have fc: "find_category cats k = Some c" using c' by simp
  define es where "es = get (sort_categorized (fst (organize entries cats))) c []"
  have mem: "e \<in> set es"
    using assms(1) fc
    by (force simp: es_def get_sort_categorized set_sort_by_year organize_categorized)
  then have ne: "es \<noteq> []" by auto
  have sec: "category_section (sort_categorized (fst (organize entries cats))) c
             = section_lines (get CATEGORY_NAMES c (title c)) c es"
    using ne by (simp add: category_section_eq es_def)
  obtain o1 o2 where o: "category_order = o1 @ c # o2"
    using assms(5) by (auto dest: split_list)
  have "page_lines entries cats
          = (header_lines
             @ concat (map (category_section (sort_categorized (fst (organize entries cats)))) o1))
            @ section_lines (get CATEGORY_NAMES c (title c)) c es
            @ (concat (map (category_section (sort_categorized (fst (organize entries cats)))) o2)
               @ (if snd (organize entries cats) \<noteq> []
                  then section_lines ''Other Publications'' ''other''
                         (sort_by_year (snd (organize entries cats)))
                  else [])
               @ footer_lines)"
    unfolding page_lines_eq o using sec by simp
  moreover have "format_publication e c \<in> set (section_lines (get CATEGORY_NAMES c (title c)) c es)"
    using mem by (auto simp: section_lines_def)
  ultimately show ?thesis using mem es_def by blast
qed

theorem single_category_rendered_witness:
  "\<exists>pre post es.
      page_lines [(''k'', sample_entry ''k'' 2023)] [(''journals'', [''k'']), (''books'', [''b''])]
        = pre @ section_lines (get CATEGORY_NAMES ''journals'' (title ''journals'')) ''journals'' es
            @ post \<and>
      es = get (sort_categorized (fst (organize [(''k'', sample_entry ''k'' 2023)]
                  [(''journals'', [''k'']), (''books'', [''b''])]))) ''journals'' [] \<and>
      sample_entry ''k'' 2023 \<in> set es \<and>
      format_publication (sample_entry ''k'' 2023) ''journals''
        \<in> set (section_lines (get CATEGORY_NAMES ''journals'' (title ''journals'')) ''journals'' es)"
proof -
  have h1: "(''k'', sample_entry ''k'' 2023) \<in> set [(''k'', sample_entry ''k'' 2023)]" by simp
  have h2: "(''journals'', [''k'']) \<in> set [(''journals'', [''k'']), (''books'', [''b''])]" by simp
  have h3: "''k'' \<in> set [''k'']" by simp
  have h4: "\<forall>p \<in> set [(''journals'', [''k'']), (''books'', [''b''])].
              ''k'' \<in> set (snd p) \<longrightarrow> fst p = ''journals''" by simp
  have h5: "''journals'' \<in> set category_order" by (simp add: category_order_def)
  show ?thesis
    using single_category_rendered [OF h1 h2 h3 h4 h5] by blast
qed

text \<open>
  Claim C6. The page is made of the sorted lists of the categories and of the sorted
  uncategorized list. In each of them an entry that comes before another has a year that
  is not smaller, and the entries of one year are in the order in which the entry mapping
  has them (there is no second key).
\<close>

theorem buckets_sorted_by_year_stable:
  "page_lines entries cats =
     header_lines
     @ concat (map (category_section (sort_categorized (fst (organize entries cats)))) category_order)
     @ (if snd (organize entries cats) \<noteq> []
        then section_lines ''Other Publications'' ''other'' (sort_by_year (snd (organize entries cats)))
        else [])
     @ footer_lines \<and>
   (\<forall>rendered.
      rendered = get (sort_categorized (fst (organize entries cats))) cat []
      \<or> rendered = sort_by_year (snd (organize entries cats)) \<longrightarrow>
      (\<forall>i j. i < j \<and> j < length rendered \<longrightarrow> e_year (rendered ! j) \<le> e_year (rendered ! i))) \<and>
   filter (\<lambda>e. e_year e = y) (get (sort_categorized (fst (organize entries cats))) cat [])
     = map snd (filter (\<lambda>it. find_category cats (fst it) = Some cat \<and> e_year (snd it) = y) entries) \<and>
   filter (\<lambda>e. e_year e = y) (sort_by_year (snd (organize entries cats)))
     = map snd (filter (\<lambda>it. find_category cats (fst it) = None \<and> e_year (snd it) = y) entries)"
proof (intro conjI allI impI)
  show "page_lines entries cats =
     header_lines
     @ concat (map (category_section (sort_categorized (fst (organize entries cats)))) category_order)
     @ (if snd (organize entries cats) \<noteq> []
        then section_lines ''Other Publications'' ''other'' (sort_by_year (snd (organize entries cats)))
        else [])
     @ footer_lines"
    by (rule page_lines_eq)
next
  fix rendered i j
  assume r: "rendered = get (sort_categorized (fst (organize entries cats))) cat []
      \<or> rendered = sort_by_year (snd (organize entries cats))"
    and ij: "i < j \<and> j < length rendered"
  from r obtain es where "rendered = sort_by_year es"
    by (auto simp: get_sort_categorized)
  then show "e_year (rendered ! j) \<le> e_year (rendered ! i)"
    using ij sort_by_year_descending [of i j es] by simp
next
  show "filter (\<lambda>e. e_year e = y) (get (sort_categorized (fst (organize entries cats))) cat [])
     = map snd (filter (\<lambda>it. find_category cats (fst it) = Some cat \<and> e_year (snd it) = y) entries)"
    by (simp add: get_sort_categorized sort_by_year_stable organize_categorized filter_map o_def
        conj_commute)
next
  show "filter (\<lambda>e. e_year e = y) (sort_by_year (snd (organize entries cats)))
     = map snd (filter (\<lambda>it. find_category cats (fst it) = None \<and> e_year (snd it) = y) entries)"
    by (simp add: sort_by_year_stable organize_uncategorized filter_map o_def conj_commute)
qed

theorem buckets_sorted_by_year_stable_witness:
  "get (sort_categorized (fst (organize
          [(''a'', sample_entry ''a'' 2022), (''b'', sample_entry ''b'' 2024),
           (''c'', sample_entry ''c'' 2023), (''d'', sample_entry ''d'' 2024)]
          [(''journals'', [''a'', ''b'', ''c'', ''d''])]))) ''journals'' []
     = [sample_entry ''b'' 2024, sample_entry ''d'' 2024, sample_entry ''c'' 2023,
        sample_entry ''a'' 2022] \<and>
   e_year (get (sort_categorized (fst (organize
          [(''a'', sample_entry ''a'' 2022), (''b'', sample_entry ''b'' 2024),
           (''c'', sample_entry ''c'' 2023), (''d'', sample_entry ''d'' 2024)]
          [(''journals'', [''a'', ''b'', ''c'', ''d''])]))) ''journals'' [] ! 3)
     \<le> e_year (get (sort_categorized (fst (organize
          [(''a'', sample_entry ''a'' 2022), (''b'', sample_entry ''b'' 2024),
           (''c'', sample_entry ''c'' 2023), (''d'', sample_entry ''d'' 2024)]
          [(''journals'', [''a'', ''b'', ''c'', ''d''])]))) ''journals'' [] ! 0)"
proof -
  let ?R = "get (sort_categorized (fst (organize
          [(''a'', sample_entry ''a'' 2022), (''b'', sample_entry ''b'' 2024),
           (''c'', sample_entry ''c'' 2023), (''d'', sample_entry ''d'' 2024)]
          [(''journals'', [''a'', ''b'', ''c'', ''d''])]))) ''journals'' []"
  have r: "?R = [sample_entry ''b'' 2024, sample_entry ''d'' 2024, sample_entry ''c'' 2023,
                 sample_entry ''a'' 2022]"
    by code_simp
  then have len: "(0::nat) < 3 \<and> 3 < length ?R" by simp
  have "\<forall>i j. i < j \<and> j < length ?R \<longrightarrow> e_year (?R ! j) \<le> e_year (?R ! i)"
    using buckets_sorted_by_year_stable
            [of "[(''a'', sample_entry ''a'' 2022), (''b'', sample_entry ''b'' 2024),
                  (''c'', sample_entry ''c'' 2023), (''d'', sample_entry ''d'' 2024)]"
                "[(''journals'', [''a'', ''b'', ''c'', ''d''])]" "''journals''" 2024]
    by blast
  then have "e_year (?R ! 3) \<le> e_year (?R ! 0)" using len by blast
  then show ?thesis using r by blast
qed

section \<open>Properties of the bibliography parser\<close>

text \<open>The loop of \<open>parse_bibtex\<close>, in either mode: the mapping has, for a key, the entry
  of the last record with that key and a year from 2022 onwards.\<close>

lemma foldl_store_entry_map_of:
  "map_of (foldl store_entry acc rs) k =
     (if filter (\<lambda>r. fst (snd r) = k \<and> 2022 \<le> year_int_of (snd (snd r))) rs = []
      then map_of acc k
      else Some (make_entry (last (filter (\<lambda>r. fst (snd r) = k \<and> 2022 \<le> year_int_of (snd (snd r))) rs))))"
proof (induction rs arbitrary: acc)
  case Nil
  then show ?case by simp
next
  case (Cons r rs)
  show ?case
    using Cons [of "store_entry acc r"]
    by (auto simp: store_entry_def update_conv')
qed

lemma distinct_foldl_store_entry:
  "distinct (map fst acc) \<Longrightarrow> distinct (map fst (foldl store_entry acc rs))"
  by (induction rs arbitrary: acc) (auto simp: store_entry_def distinct_update)

lemma stored_entry_from_record:
  assumes "(k, e) \<in> set (foldl store_entry [] rs)"
  shows "\<exists>r \<in> set rs. fst (snd r) = k \<and> 2022 \<le> year_int_of (snd (snd r)) \<and> e = make_entry r"
proof -
  let ?qs = "filter (\<lambda>r. fst (snd r) = k \<and> 2022 \<le> year_int_of (snd (snd r))) rs"
  have "distinct (map fst (foldl store_entry [] rs))"
    by (rule distinct_foldl_store_entry) simp
  then have "map_of (foldl store_entry [] rs) k = Some e"
    using assms by simp
  then have ne: "?qs \<noteq> []" and e: "e = make_entry (last ?qs)"
    by (auto simp: foldl_store_entry_map_of split: if_splits)
  have "last ?qs \<in> set ?qs" using ne by (rule last_in_set)
  then show ?thesis using e by auto
qed

lemma e_year_make_entry: "e_year (make_entry r) = year_int_of (snd (snd r))"
  by (simp add: make_entry_def)

lemma parse_bibtex_Some:
  "snd (parse_bibtex load hb path (Some content)) = foldl store_entry [] (bib_records load hb content)"
  by (simp add: parse_bibtex_def)

lemma parse_bibtex_None: "parse_bibtex load hb path None = ([''Warning: '' @ path @ '' not found''], [])"
  by (simp add: parse_bibtex_def)

lemma parsed_entry_year:
  assumes "it \<in> set (snd (parse_bibtex load hb path src))"
  shows "2022 \<le> e_year (snd it)"
proof (cases src)
  case None
  then show ?thesis using assms by (simp add: parse_bibtex_None)
next
  case (Some content)
  then have "(fst it, snd it) \<in> set (foldl store_entry [] (bib_records load hb content))"
    using assms by (simp add: parse_bibtex_Some)
  from stored_entry_from_record [OF this] show ?thesis
    by (auto simp: e_year_make_entry)
qed




text \<open>
  Claim C9, as the specification states it: for a key that occurs in several entry
  records, the result mapping has the entry built from the last record. It fails when the
  last record has a year before 2022: the record is not stored, and the entry of the
  earlier record stays.
\<close>

theorem later_record_counterexample:
  "bib_records no_library False
     ''@book{k, year = 2023, title = {First}}@book{k, year = 2020, title = {Second}}''
     = [(''book'', ''k'', [(''title'', ''First''), (''year'', ''2023'')]),
        (''book'', ''k'', [(''title'', ''Second''), (''year'', ''2020'')])] \<and>
   snd (parse_bibtex no_library False ''citations.bib''
          (Some ''@book{k, year = 2023, title = {First}}@book{k, year = 2020, title = {Second}}''))
     = [(''k'', \<lparr>e_type = ''book'', e_key = ''k'', e_year = 2023,
                 e_fields = [(''title'', ''First''), (''year'', ''2023'')]\<rparr>)]"
  by code_simp

text \<open>
  Claim C9, amended: the keys of the result mapping are distinct, and for every key the
  mapping has an entry exactly when some record with that key has a year of 2022 or
  more; the entry is built from the last such record.
\<close>

theorem last_qualifying_record_wins:
  "distinct (map fst (snd (parse_bibtex load hb path src))) \<and>
   map_of (snd (parse_bibtex load hb path (Some content))) k =
     (if filter (\<lambda>r. fst (snd r) = k \<and> 2022 \<le> year_int_of (snd (snd r)))
           (bib_records load hb content) = []
      then None
      else Some (make_entry (last (filter (\<lambda>r. fst (snd r) = k \<and> 2022 \<le> year_int_of (snd (snd r)))
                                     (bib_records load hb content)))))"
proof
  show "distinct (map fst (snd (parse_bibtex load hb path src)))"
    by (cases src) (simp_all add: parse_bibtex_None parse_bibtex_Some distinct_foldl_store_entry)
next
  show "map_of (snd (parse_bibtex load hb path (Some content))) k =
     (if filter (\<lambda>r. fst (snd r) = k \<and> 2022 \<le> year_int_of (snd (snd r)))
           (bib_records load hb content) = []
      then None
      else Some (make_entry (last (filter (\<lambda>r. fst (snd r) = k \<and> 2022 \<le> year_int_of (snd (snd r)))
                                     (bib_records load hb content)))))"
    unfolding parse_bibtex_Some foldl_store_entry_map_of by simp
qed

theorem last_qualifying_record_wins_witness:
  "map_of (snd (parse_bibtex no_library False ''citations.bib''
      (Some ''@book{k, year = 2022, title = {First}}@book{k, year = 2023, title = {Second}}''))) ''k''
     = Some \<lparr>e_type = ''book'', e_key = ''k'', e_year = 2023,
             e_fields = [(''title'', ''Second''), (''year'', ''2023'')]\<rparr>"
proof -
  have r: "bib_records no_library False
             ''@book{k, year = 2022, title = {First}}@book{k, year = 2023, title = {Second}}''
           = [(''book'', ''k'', [(''title'', ''First''), (''year'', ''2022'')]),
              (''book'', ''k'', [(''title'', ''Second''), (''year'', ''2023'')])]"
    by code_simp
  have y1: "year_int_of [(''title'', ''First''), (''year'', ''2022'')] = 2022" by code_simp
  have y2: "year_int_of [(''title'', ''Second''), (''year'', ''2023'')] = 2023" by code_simp
  show ?thesis
    using last_qualifying_record_wins
            [of no_library False "''citations.bib''" "None"
                "''@book{k, year = 2022, title = {First}}@book{k, year = 2023, title = {Second}}''"
                "''k''"]
    by (simp add: r y1 y2 make_entry_def)
qed

section \<open>Properties of the citation formatter\<close>

text \<open>
  Claim C10. A link is emitted for the key \<open>url\<close> (and for the key \<open>doi\<close>) whenever the
  fields have the key, whatever its value: the line ends with the links, the PDF link
  before the DOI link, and an empty value gives \<open>[PDF]()\<close>. The venue segment is left out
  when the journal (for an article) or the booktitle (for inproceedings, inbook and
  incollection) is empty after stripping.
\<close>

theorem links_follow_key_presence:
  "(e_type e = ''article'' \<and> strip (get (e_fields e) ''journal'' []) = [] \<longrightarrow> venue_parts e = []) \<and>
   ((e_type e = ''inproceedings'' \<or> e_type e = ''inbook'' \<or> e_type e = ''incollection'')
      \<and> strip (get (e_fields e) ''booktitle'' []) = [] \<longrightarrow> venue_parts e = []) \<and>
   (\<forall>url. map_of (e_fields e) ''url'' = Some url \<and> map_of (e_fields e) ''doi'' = None \<longrightarrow>
      format_publication e cat
        = ''- '' @ join ''. '' (citation_parts e) @ '' [PDF]('' @ strip url @ '')'') \<and>
   (\<forall>doi. map_of (e_fields e) ''url'' = None \<and> map_of (e_fields e) ''doi'' = Some doi \<longrightarrow>
      format_publication e cat
        = ''- '' @ join ''. '' (citation_parts e) @ '' [DOI](https://doi.org/'' @ strip doi @ '')'') \<and>
   (\<forall>url doi. map_of (e_fields e) ''url'' = Some url \<and> map_of (e_fields e) ''doi'' = Some doi \<longrightarrow>
      format_publication e cat
        = ''- '' @ join ''. '' (citation_parts e) @ '' [PDF]('' @ strip url @ '') | [DOI](https://doi.org/''
            @ strip doi @ '')'') \<and>
   (map_of (e_fields e) ''url'' = None \<and> map_of (e_fields e) ''doi'' = None \<longrightarrow>
      format_publication e cat = ''- '' @ join ''. '' (citation_parts e))"
  by (auto simp: venue_parts_def format_publication_def links_def)

theorem links_follow_key_presence_witness:
  "format_publication \<lparr>e_type = ''article'', e_key = ''k'', e_year = 2023,
                       e_fields = [(''journal'', ''  ''), (''url'', [])]\<rparr> ''journals''
     = ''- (2023) [PDF]()'' \<and>
   venue_parts \<lparr>e_type = ''article'', e_key = ''k'', e_year = 2023,
                e_fields = [(''journal'', ''  ''), (''url'', [])]\<rparr> = []"
proof -
  let ?e = "\<lparr>e_type = ''article'', e_key = ''k'', e_year = 2023,
             e_fields = [(''journal'', ''  ''), (''url'', [])]\<rparr>"
  have h1: "e_type ?e = ''article'' \<and> strip (get (e_fields ?e) ''journal'' []) = []"
    by code_simp
  have h2: "map_of (e_fields ?e) ''url'' = Some [] \<and> map_of (e_fields ?e) ''doi'' = None"
    by simp
  have v: "venue_parts ?e = []"
    using links_follow_key_presence [of ?e "''journals''"] h1 by blast
  have c: "citation_parts ?e = [''(2023)'']"
    unfolding citation_parts_def v by code_simp
  have "format_publication ?e ''journals''
          = ''- '' @ join ''. '' (citation_parts ?e) @ '' [PDF]('' @ strip [] @ '')''"
    using links_follow_key_presence [of ?e "''journals''"] h2 by blast
  then show ?thesis using v c by (simp add: strip_def)
qed

section \<open>Properties of the run\<close>

lemma page_lines_no_categories:
  "page_lines entries [] =
     header_lines
     @ (if entries = [] then []
        else section_lines ''Other Publications'' ''other'' (sort_by_year (map snd entries)))
     @ footer_lines"
proof -
  have u: "snd (organize entries []) = map snd entries"
    by (simp add: organize_uncategorized)
  have "category_section (sort_categorized (fst (organize entries []))) c = []" for c
    by (simp add: category_section_eq get_sort_categorized organize_categorized sort_by_year_Nil)
  then have c: "concat (map (category_section (sort_categorized (fst (organize entries []))))
               category_order) = []"
    by simp
  have "page_lines entries [] =
     header_lines
     @ (if map snd entries \<noteq> []
        then section_lines ''Other Publications'' ''other'' (sort_by_year (map snd entries))
        else [])
     @ footer_lines"
    unfolding page_lines_eq u c by simp
  then show ?thesis by simp
qed

text \<open>
  Claim C7. When the categorization file is absent the index builder prints a warning
  and returns the empty mapping. The run goes on: the warning is among what it prints,
  and the document is the header, the section \<open>Other Publications\<close> with all entries of the
  parser (each with a year of 2022 or more, each rendered as an item of the section), and
  the footer; without entries there is no section.
\<close>

theorem missing_categorization_file:
  "parse_bib_entries_sty layout path None = ([''Warning: '' @ path @ '' not found''], []) \<and>
   (categories_file w = None \<longrightarrow>
      ''Warning: '' @ categories_path w @ '' not found'' \<in> set (fst (main layout load w)) \<and>
      snd (main layout load w)
        = join [CHR 0x0A]
            (header_lines
             @ (if snd (parse_bibtex load (has_bibtexparser w) (bib_path w) (bib_file w)) = [] then []
                else section_lines ''Other Publications'' ''other''
                       (sort_by_year
                          (map snd (snd (parse_bibtex load (has_bibtexparser w) (bib_path w) (bib_file w))))))
             @ footer_lines) \<and>
      (\<forall>it \<in> set (snd (parse_bibtex load (has_bibtexparser w) (bib_path w) (bib_file w))).
         2022 \<le> e_year (snd it) \<and>
         format_publication (snd it) ''other''
           \<in> set (section_lines ''Other Publications'' ''other''
                    (sort_by_year
                       (map snd (snd (parse_bibtex load (has_bibtexparser w) (bib_path w) (bib_file w))))))))"
proof (intro conjI impI ballI)
  show "parse_bib_entries_sty layout path None = ([''Warning: '' @ path @ '' not found''], [])"
    by (simp add: parse_bib_entries_sty_def)
next
  assume "categories_file w = None"
  then show "''Warning: '' @ categories_path w @ '' not found'' \<in> set (fst (main layout load w))"
    by (simp add: main_def parse_bib_entries_sty_def Let_def)
next
  assume "categories_file w = None"
  then show "snd (main layout load w)
        = join [CHR 0x0A]
            (header_lines
             @ (if snd (parse_bibtex load (has_bibtexparser w) (bib_path w) (bib_file w)) = [] then []
                else section_lines ''Other Publications'' ''other''
                       (sort_by_year
                          (map snd (snd (parse_bibtex load (has_bibtexparser w) (bib_path w) (bib_file w))))))
             @ footer_lines)"
    by (simp add: main_def parse_bib_entries_sty_def Let_def generate_publications_page_def
        page_lines_no_categories)
next
  fix it
  assume "it \<in> set (snd (parse_bibtex load (has_bibtexparser w) (bib_path w) (bib_file w)))"
  then show "2022 \<le> e_year (snd it)" by (rule parsed_entry_year)
next
  fix it
  assume "it \<in> set (snd (parse_bibtex load (has_bibtexparser w) (bib_path w) (bib_file w)))"
  then show "format_publication (snd it) ''other''
           \<in> set (section_lines ''Other Publications'' ''other''
                    (sort_by_year
                       (map snd (snd (parse_bibtex load (has_bibtexparser w) (bib_path w) (bib_file w))))))"
    by (auto simp: section_lines_def set_sort_by_year)
qed

theorem missing_categorization_file_witness:
  "categories_file (fallback_world None (Some ''@book{new, year = 2023}'')) = None \<and>
   ''Warning: bib-entries.sty not found''
     \<in> set (fst (main remdups no_library (fallback_world None (Some ''@book{new, year = 2023}'')))) \<and>
   snd (main remdups no_library (fallback_world None (Some ''@book{new, year = 2023}'')))
     = join [CHR 0x0A]
         (header_lines
          @ section_lines ''Other Publications'' ''other''
              [\<lparr>e_type = ''book'', e_key = ''new'', e_year = 2023, e_fields = [(''year'', ''2023'')]\<rparr>]
          @ footer_lines)"
proof -
  let ?w = "fallback_world None (Some ''@book{new, year = 2023}'')"
  have h: "categories_file ?w = None" by simp
  have p: "snd (parse_bibtex no_library (has_bibtexparser ?w) (bib_path ?w) (bib_file ?w))
           = [(''new'', \<lparr>e_type = ''book'', e_key = ''new'', e_year = 2023,
                         e_fields = [(''year'', ''2023'')]\<rparr>)]"
    by code_simp
  show ?thesis
    using missing_categorization_file [of remdups "''bib-entries.sty''" ?w no_library] h
    unfolding p by (simp add: sort_by_year_def)
qed

text \<open>Only the membership in the sets of the index is read, so that the arrangement of
  the sets has no effect on the page.\<close>

lemma same_index_get: "same_index a b \<Longrightarrow> set (get a c []) = set (get b c [])"
  by (induction a b rule: list_all2_induct) (auto simp: get_def)

lemma same_index_update:
  "same_index a b \<Longrightarrow> set v = set v' \<Longrightarrow> same_index (AList.update c v a) (AList.update c v' b)"
  by (induction a b rule: list_all2_induct) auto

lemma same_index_add:
  assumes "same_index a b" and "\<forall>xs. set (l1 xs) = set xs" and "\<forall>xs. set (l2 xs) = set xs"
  shows "same_index (add_to_category l1 a m) (add_to_category l2 b m)"
  unfolding add_to_category_def Let_def
  using assms same_index_get [OF assms(1)] by (intro same_index_update) auto

lemma same_index_foldl:
  assumes "\<forall>xs. set (l1 xs) = set xs" and "\<forall>xs. set (l2 xs) = set xs"
  shows "same_index a b \<Longrightarrow>
         same_index (foldl (add_to_category l1) a ms) (foldl (add_to_category l2) b ms)"
proof (induction ms arbitrary: a b)
  case Nil
  then show ?case by simp
next
  case (Cons m ms)
  have "same_index (add_to_category l1 a m) (add_to_category l2 b m)"
    using Cons.prems assms by (rule same_index_add)
  then show ?case using Cons.IH by simp
qed

lemma same_index_parse:
  assumes "\<forall>xs. set (l1 xs) = set xs" and "\<forall>xs. set (l2 xs) = set xs"
  shows "fst (parse_bib_entries_sty l1 path src) = fst (parse_bib_entries_sty l2 path src) \<and>
         same_index (snd (parse_bib_entries_sty l1 path src)) (snd (parse_bib_entries_sty l2 path src))"
  using same_index_foldl [OF assms, of "[]" "[]"]
  by (cases src) (auto simp: parse_bib_entries_sty_def)

lemma same_index_find: "same_index a b \<Longrightarrow> find_category a k = find_category b k"
  by (induction a b rule: list_all2_induct) auto

lemma same_index_page:
  assumes "same_index a b"
  shows "generate_publications_page entries a = generate_publications_page entries b"
proof -
  have "place_entry a = place_entry b"
    by (intro ext) (simp add: place_entry_def same_index_find [OF assms])
  then show ?thesis
    by (simp add: generate_publications_page_def page_lines_def organize_def)
qed

text \<open>
  Claim C8. Two runs on the same files, with the same parsing mode and library, write the
  same document and print the same text, whatever arrangement each run gives to its sets
  of keys: nothing else differs between two runs.
\<close>

theorem pipeline_deterministic:
  assumes "\<forall>xs. set (layout1 xs) = set xs" and "\<forall>xs. set (layout2 xs) = set xs"
  shows "main layout1 load w = main layout2 load w"
proof -
  let ?p1 = "parse_bib_entries_sty layout1 (categories_path w) (categories_file w)"
  let ?p2 = "parse_bib_entries_sty layout2 (categories_path w) (categories_file w)"
  have out: "fst ?p1 = fst ?p2" and idx: "same_index (snd ?p1) (snd ?p2)"
    using same_index_parse [OF assms] by auto
  have len: "length (snd ?p1) = length (snd ?p2)"
    using idx by (rule list_all2_lengthD)
  show ?thesis
    unfolding main_def Let_def using out len same_index_page [OF idx] by simp
qed

theorem pipeline_deterministic_witness:
  "(\<forall>xs :: string list. set (remdups xs) = set xs) \<and>
   (\<forall>xs :: string list. set (rev xs) = set xs) \<and>
   main remdups no_library (fallback_world (Some scenario_sty) (Some scenario_bib))
     = main rev no_library (fallback_world (Some scenario_sty) (Some scenario_bib))"
proof -
  have h1: "\<forall>xs :: string list. set (remdups xs) = set xs" by simp
  have h2: "\<forall>xs :: string list. set (rev xs) = set xs" by simp
  show ?thesis
    using pipeline_deterministic [OF h1 h2] h1 h2 by blast
qed








end
